theory Spec2Isabelle
  imports Main "HOL-Library.Word"
begin

section \<open>Go strings and the library functions used by the upgrade predicate\<close>

text \<open>
  A Go \<open>string\<close> is a sequence of bytes, read as UTF-8 where a rune is needed; it is
  modelled as \<^typ>\<open>string\<close>, a list of 8-bit characters. The three functions of package
  \<open>strings\<close> that \<open>headerContains\<close> calls are library code; they are modelled here from
  the library's documented behaviour, on bytes, with UTF-8 decoding as package
  \<open>unicode/utf8\<close> does it.
\<close>

type_synonym rune = nat

definition byte :: "char \<Rightarrow> nat" where
  "byte c = of_char c"

definition RuneError :: rune where
  "RuneError = 0xFFFD"

text \<open>\<open>utf8.RuneStart\<close>: the byte is not a continuation byte \<open>10xxxxxx\<close>.\<close>

definition RuneStart :: "char \<Rightarrow> bool" where
  "RuneStart c = (\<not> (0x80 \<le> byte c \<and> byte c \<le> 0xBF))"

text \<open>
  The second byte a leading byte accepts (the table \<open>acceptRanges\<close> of \<open>unicode/utf8\<close>):
  over-long forms, surrogates and values above \<open>U+10FFFF\<close> are refused.
\<close>

definition accepts :: "nat \<Rightarrow> nat \<Rightarrow> bool" where
  "accepts b0 b1 =
     (if b0 = 0xE0 then 0xA0 \<le> b1 \<and> b1 \<le> 0xBF
      else if b0 = 0xED then 0x80 \<le> b1 \<and> b1 \<le> 0x9F
      else if b0 = 0xF0 then 0x90 \<le> b1 \<and> b1 \<le> 0xBF
      else if b0 = 0xF4 then 0x80 \<le> b1 \<and> b1 \<le> 0x8F
      else 0x80 \<le> b1 \<and> b1 \<le> 0xBF)"

definition is_cont :: "nat \<Rightarrow> bool" where
  "is_cont b = (0x80 \<le> b \<and> b \<le> 0xBF)"

text \<open>
  \<open>utf8.DecodeRuneInString\<close>: the first rune of the string and its width in bytes;
  \<open>(RuneError, 0)\<close> on the empty string and \<open>(RuneError, 1)\<close> on an invalid encoding.
\<close>

fun DecodeRuneInString :: "string \<Rightarrow> rune \<times> nat" where
  "DecodeRuneInString [] = (RuneError, 0)"
| "DecodeRuneInString (c # cs) =
     (let b0 = byte c in
      if b0 < 0x80 then (b0, 1)
      else if b0 < 0xC2 \<or> 0xF4 < b0 then (RuneError, 1)
      else
        (case cs of
           [] \<Rightarrow> (RuneError, 1)
         | c1 # cs1 \<Rightarrow>
             let b1 = byte c1 in
             if \<not> accepts b0 b1 then (RuneError, 1)
             else if b0 < 0xE0 then ((b0 mod 32) * 64 + b1 mod 64, 2)
             else
               (case cs1 of
                  [] \<Rightarrow> (RuneError, 1)
                | c2 # cs2 \<Rightarrow>
                    let b2 = byte c2 in
                    if \<not> is_cont b2 then (RuneError, 1)
                    else if b0 < 0xF0
                    then ((b0 mod 16) * 4096 + (b1 mod 64) * 64 + b2 mod 64, 3)
                    else
                      (case cs2 of
                         [] \<Rightarrow> (RuneError, 1)
                       | c3 # _ \<Rightarrow>
                           let b3 = byte c3 in
                           if \<not> is_cont b3 then (RuneError, 1)
                           else ((b0 mod 8) * 262144 + (b1 mod 64) * 4096
                                   + (b2 mod 64) * 64 + b3 mod 64, 4)))))"

text \<open>
  \<open>utf8.DecodeLastRuneInString\<close>: the last rune of the string and its width. The library
  walks back over at most three bytes to the nearest byte that can start a rune, decodes from
  there, and answers \<open>(RuneError, 1)\<close> unless that rune ends exactly at the end of the string.
\<close>

definition DecodeLastRuneInString :: "string \<Rightarrow> rune \<times> nat" where
  "DecodeLastRuneInString s =
     (let end = length s in
      if end = 0 then (RuneError, 0)
      else if byte (last s) < 0x80 then (byte (last s), 1)
      else
        let lim = end - 4;
            start = (case find (\<lambda>p. RuneStart (s ! p)) (rev [lim ..< end - 1]) of
                       Some p \<Rightarrow> p
                     | None \<Rightarrow> lim - 1);
            (r, n) = DecodeRuneInString (drop start s)
        in if start + n \<noteq> end then (RuneError, 1) else (r, n))"

text \<open>
  \<open>unicode.IsSpace\<close>: the white space of Unicode (property \<open>White_Space\<close>): the six ASCII
  characters tab, line feed, vertical tab, form feed, carriage return and space, then
  \<open>U+0085\<close>, \<open>U+00A0\<close>, \<open>U+1680\<close>, \<open>U+2000\<close> to \<open>U+200A\<close>, \<open>U+2028\<close>, \<open>U+2029\<close>,
  \<open>U+202F\<close>, \<open>U+205F\<close> and \<open>U+3000\<close>.
\<close>

definition IsSpace :: "rune \<Rightarrow> bool" where
  "IsSpace r =
     ((0x09 \<le> r \<and> r \<le> 0x0D) \<or> r = 0x20 \<or> r = 0x85 \<or> r = 0xA0 \<or> r = 0x1680
      \<or> (0x2000 \<le> r \<and> r \<le> 0x200A) \<or> r = 0x2028 \<or> r = 0x2029 \<or> r = 0x202F
      \<or> r = 0x205F \<or> r = 0x3000)"

text \<open>
  \<open>strings.TrimSpace\<close> removes all leading and all trailing white space. The library scans
  runes forward from the start, then backward from the end of what is left.
\<close>

function TrimLeftSpace :: "string \<Rightarrow> string" where
  "TrimLeftSpace s =
     (if s = [] then []
      else if IsSpace (fst (DecodeRuneInString s))
      then TrimLeftSpace (drop (snd (DecodeRuneInString s)) s)
      else s)"
  by pat_completeness auto
termination
proof (relation "measure length")
  fix s :: string
  assume "s \<noteq> []"
  then have "1 \<le> snd (DecodeRuneInString s)" and "0 < length s"
    by (cases s; auto simp: Let_def split: list.splits)+
  then show "(drop (snd (DecodeRuneInString s)) s, s) \<in> measure length"
    by simp
qed simp

function TrimRightSpace :: "string \<Rightarrow> string" where
  "TrimRightSpace s =
     (if s = [] then []
      else if IsSpace (fst (DecodeLastRuneInString s))
      then TrimRightSpace (take (length s - snd (DecodeLastRuneInString s)) s)
      else s)"
  by pat_completeness auto
termination
proof (relation "measure length")
  fix s :: string
  assume ne: "s \<noteq> []"
  define start where
    "start = (case find (\<lambda>p. RuneStart (s ! p)) (rev [length s - 4 ..< length s - 1]) of
                Some p \<Rightarrow> p | None \<Rightarrow> length s - 4 - 1)"
  have "p < length s - 1"
    if "find (\<lambda>p. RuneStart (s ! p)) (rev [length s - 4 ..< length s - 1]) = Some p" for p
  proof -
    from that have "p \<in> set (rev [length s - 4 ..< length s - 1])"
      by (metis find_Some_iff nth_mem)
    then show ?thesis by simp
  qed
  then have "start < length s"
    using ne by (auto simp: start_def split: option.splits)
  then have "drop start s \<noteq> []" by simp
  then have "1 \<le> snd (DecodeRuneInString (drop start s))"
    by (cases "drop start s"; auto simp: Let_def split: list.splits)
  then have "1 \<le> snd (DecodeLastRuneInString s)"
    using ne by (auto simp: DecodeLastRuneInString_def Let_def start_def split: prod.splits)
  moreover have "0 < length s" using ne by simp
  ultimately show "(take (length s - snd (DecodeLastRuneInString s)) s, s) \<in> measure length"
    by simp
qed simp

declare TrimLeftSpace.simps [simp del] TrimRightSpace.simps [simp del]

definition strings_TrimSpace :: "string \<Rightarrow> string" where
  "strings_TrimSpace s = TrimRightSpace (TrimLeftSpace s)"

text \<open>
  \<open>strings.Split(s, sep)\<close> for a separator of one byte, which is how the program calls it
  (\<open>sep = ","\<close>): the pieces of \<open>s\<close> between the occurrences of the separator, in
  order. The result is never empty: a string without the separator, the empty string
  included, gives the list of that one string.
\<close>

function strings_Split :: "string \<Rightarrow> char \<Rightarrow> string list" where
  "strings_Split s sep =
     (case dropWhile (\<lambda>c. c \<noteq> sep) s of
        [] \<Rightarrow> [s]
      | _ # rest \<Rightarrow> takeWhile (\<lambda>c. c \<noteq> sep) s # strings_Split rest sep)"
  by pat_completeness auto
termination
proof (relation "measure (\<lambda>(s, sep). length s)")
  fix s :: string and sep c :: char and rest :: string
  assume "dropWhile (\<lambda>c. c \<noteq> sep) s = c # rest"
  then have "length rest < length (dropWhile (\<lambda>c. c \<noteq> sep) s)"
    by simp
  also have "\<dots> \<le> length s"
    by (rule length_dropWhile_le)
  finally show "((rest, sep), (s, sep)) \<in> measure (\<lambda>(s, sep). length s)"
    by simp
qed simp

declare strings_Split.simps [simp del]

text \<open>
  \<open>strings.EqualFold\<close> compares two strings rune by rune under Unicode simple case
  folding. Two runes agree when they are equal or lie in the same folding orbit. The orbits
  written out here are the ones that contain an ASCII rune: each ASCII letter with its other
  case, the Kelvin sign \<open>U+212A\<close> with \<open>K\<close> and \<open>k\<close>, and the long s \<open>U+017F\<close> with
  \<open>S\<close> and \<open>s\<close>. That decides every comparison in which one of the two strings is
  ASCII, as the constants \<open>"Upgrade"\<close> and \<open>"websocket"\<close> of the program are; the
  orbits among non-ASCII runes (the rest of the Unicode table) are not part of the model.
\<close>

definition rune_EqualFold :: "rune \<Rightarrow> rune \<Rightarrow> bool" where
  "rune_EqualFold sr tr =
     (let lo = min sr tr; hi = max sr tr in
      if lo = hi then True
      else if hi < 0x80 then 0x41 \<le> lo \<and> lo \<le> 0x5A \<and> hi = lo + 0x20
      else (hi = 0x212A \<and> (lo = 0x4B \<or> lo = 0x6B))
         \<or> (hi = 0x17F \<and> (lo = 0x53 \<or> lo = 0x73)))"

function strings_EqualFold :: "string \<Rightarrow> string \<Rightarrow> bool" where
  "strings_EqualFold s t =
     (if s = [] then t = []
      else if t = [] then False
      else if rune_EqualFold (fst (DecodeRuneInString s)) (fst (DecodeRuneInString t))
      then strings_EqualFold (drop (snd (DecodeRuneInString s)) s)
                             (drop (snd (DecodeRuneInString t)) t)
      else False)"
  by pat_completeness auto
termination
proof (relation "measure (\<lambda>(s, t). length s)")
  fix s t :: string
  assume "s \<noteq> []"
  then have "1 \<le> snd (DecodeRuneInString s)" and "0 < length s"
    by (cases s; auto simp: Let_def split: list.splits)+
  then show "((drop (snd (DecodeRuneInString s)) s, drop (snd (DecodeRuneInString t)) t), (s, t))
               \<in> measure (\<lambda>(s, t). length s)"
    by simp
qed simp

declare strings_EqualFold.simps [simp del]

section \<open>The upgrade predicate (websocket.go, lines 49 to 63)\<close>

text \<open>
  \<open>http.Header\<close> is \<open>map[string][]string\<close>. Indexing a Go map with a key it does not
  hold gives the zero value, here the nil slice, over which a \<open>range\<close> loop does not run.
\<close>

type_synonym Header = "string \<rightharpoonup> string list"

definition index_Header :: "Header \<Rightarrow> string \<Rightarrow> string list" where
  "index_Header header name = (case header name of None \<Rightarrow> [] | Some vs \<Rightarrow> vs)"

text \<open>
  The two nested \<open>range\<close> loops of \<open>headerContains\<close>, each leaving with \<open>true\<close> at the
  first matching piece: the inner loop over the pieces of one value (lines 51 to 55), the
  outer loop over the values of the header (lines 50 to 56), and \<open>false\<close> after both
  (line 57).
\<close>

fun headerContains_pieces :: "string \<Rightarrow> string list \<Rightarrow> bool" where
  "headerContains_pieces value [] = False"
| "headerContains_pieces value (s # ss) =
     (if strings_EqualFold value (strings_TrimSpace s) then True
      else headerContains_pieces value ss)"

fun headerContains_values :: "string \<Rightarrow> string list \<Rightarrow> bool" where
  "headerContains_values value [] = False"
| "headerContains_values value (v # vs) =
     (if headerContains_pieces value (strings_Split v (CHR '','')) then True
      else headerContains_values value vs)"

definition headerContains :: "Header \<Rightarrow> string \<Rightarrow> string \<Rightarrow> bool" where
  "headerContains header name value = headerContains_values value (index_Header header name)"

definition isWebSocketHandshake :: "Header \<Rightarrow> bool" where
  "isWebSocketHandshake header =
     (headerContains header ''Connection'' ''Upgrade''
      \<and> headerContains header ''Upgrade'' ''websocket'')"

section \<open>The upgrade predicate in the specification's words\<close>

text \<open>
  The specification's reading of the predicate is written here on the bytes of the header
  value, without the library functions of the program: which byte sequences spell a letter
  of the token without regard to case, which byte sequences are white space, and where a
  value is cut at commas.

  A letter of an ASCII token is spelled by its own byte, by the byte of its other case, and,
  for \<open>k\<close> and \<open>s\<close>, by the UTF-8 encoding of the Kelvin sign \<open>U+212A\<close> (\<open>E2 84 AA\<close>)
  and of the long s \<open>U+017F\<close> (\<open>C5 BF\<close>), which Unicode folds to them.
  \<open>spec_letter_width c t\<close> is how many bytes at the start of \<open>t\<close> spell the character
  \<open>c\<close>, and 0 when none do.
\<close>

definition spec_lower :: "nat \<Rightarrow> nat" where
  "spec_lower b = (if 0x41 \<le> b \<and> b \<le> 0x5A then b + 0x20 else b)"

definition spec_letter_width :: "char \<Rightarrow> string \<Rightarrow> nat" where
  "spec_letter_width c t =
     (case t of
        [] \<Rightarrow> 0
      | b # bs \<Rightarrow>
          if byte b < 0x80 \<and> spec_lower (byte b) = spec_lower (byte c) then 1
          else if spec_lower (byte c) = 0x6B \<and> map byte (take 3 t) = [0xE2, 0x84, 0xAA] then 3
          else if spec_lower (byte c) = 0x73 \<and> map byte (take 2 t) = [0xC5, 0xBF] then 2
          else 0)"

text \<open>
  \<open>spec_ci_equal token t\<close>: the string \<open>t\<close> spells the ASCII token letter by letter,
  without regard to case, and nothing is left over.
\<close>

fun spec_ci_equal :: "string \<Rightarrow> string \<Rightarrow> bool" where
  "spec_ci_equal [] t = (t = [])"
| "spec_ci_equal (c # cs) t =
     (spec_letter_width c t \<noteq> 0 \<and> spec_ci_equal cs (drop (spec_letter_width c t) t))"

text \<open>
  The UTF-8 encodings of the white-space characters of Unicode: the ASCII bytes \<open>09\<close> to
  \<open>0D\<close> and \<open>20\<close>; \<open>C2 85\<close> and \<open>C2 A0\<close> (\<open>U+0085\<close>, \<open>U+00A0\<close>); \<open>E1 9A 80\<close>
  (\<open>U+1680\<close>); \<open>E2 80 80\<close> to \<open>E2 80 8A\<close> (\<open>U+2000\<close> to \<open>U+200A\<close>); \<open>E2 80 A8\<close>,
  \<open>E2 80 A9\<close>, \<open>E2 80 AF\<close> (\<open>U+2028\<close>, \<open>U+2029\<close>, \<open>U+202F\<close>); \<open>E2 81 9F\<close>
  (\<open>U+205F\<close>); \<open>E3 80 80\<close> (\<open>U+3000\<close>).
\<close>

fun spec_is_white :: "nat list \<Rightarrow> bool" where
  "spec_is_white [b] = (0x09 \<le> b \<and> b \<le> 0x0D \<or> b = 0x20)"
| "spec_is_white [b0, b1] = (b0 = 0xC2 \<and> (b1 = 0x85 \<or> b1 = 0xA0))"
| "spec_is_white [b0, b1, b2] =
     (b0 = 0xE1 \<and> b1 = 0x9A \<and> b2 = 0x80
      \<or> b0 = 0xE2 \<and> b1 = 0x80 \<and> (0x80 \<le> b2 \<and> b2 \<le> 0x8A \<or> b2 = 0xA8 \<or> b2 = 0xA9 \<or> b2 = 0xAF)
      \<or> b0 = 0xE2 \<and> b1 = 0x81 \<and> b2 = 0x9F
      \<or> b0 = 0xE3 \<and> b1 = 0x80 \<and> b2 = 0x80)"
| "spec_is_white bs = False"

text \<open>
  How many bytes of white space a string starts with (one character's worth), and, below,
  how many it ends with; 0 when it does not start, or end, with white space.
\<close>

definition spec_space_width :: "string \<Rightarrow> nat" where
  "spec_space_width t =
     (if spec_is_white (map byte (take 1 t)) then 1
      else if spec_is_white (map byte (take 2 t)) then 2
      else if spec_is_white (map byte (take 3 t)) then 3
      else 0)"

definition spec_space_width_end :: "string \<Rightarrow> nat" where
  "spec_space_width_end t =
     (if spec_is_white (map byte (drop (length t - 1) t)) then 1
      else if spec_is_white (map byte (drop (length t - 2) t)) then 2
      else if spec_is_white (map byte (drop (length t - 3) t)) then 3
      else 0)"

text \<open>
  Trimming: white space is taken off the start while there is some, then off the end.
\<close>

function spec_trim_left :: "string \<Rightarrow> string" where
  "spec_trim_left t =
     (if spec_space_width t = 0 then t else spec_trim_left (drop (spec_space_width t) t))"
  by pat_completeness auto
termination
proof (relation "measure length")
  fix t :: string
  assume "spec_space_width t \<noteq> 0"
  moreover from this have "t \<noteq> []" by (auto simp: spec_space_width_def)
  ultimately show "(drop (spec_space_width t) t, t) \<in> measure length" by simp
qed simp

function spec_trim_right :: "string \<Rightarrow> string" where
  "spec_trim_right t =
     (if spec_space_width_end t = 0 then t
      else spec_trim_right (take (length t - spec_space_width_end t) t))"
  by pat_completeness auto
termination
proof (relation "measure length")
  fix t :: string
  assume "spec_space_width_end t \<noteq> 0"
  moreover from this have "t \<noteq> []" by (auto simp: spec_space_width_end_def)
  ultimately show "(take (length t - spec_space_width_end t) t, t) \<in> measure length" by simp
qed simp

declare spec_trim_left.simps [simp del] spec_trim_right.simps [simp del]

definition spec_trim :: "string \<Rightarrow> string" where
  "spec_trim t = spec_trim_right (spec_trim_left t)"

text \<open>
  Splitting on commas, read byte by byte: a comma closes the piece before it and opens a new
  one; any other byte joins the piece that follows it.
\<close>

fun spec_pieces :: "string \<Rightarrow> string list" where
  "spec_pieces [] = [[]]"
| "spec_pieces (c # cs) =
     (if c = CHR '','' then [] # spec_pieces cs
      else (c # hd (spec_pieces cs)) # tl (spec_pieces cs))"

text \<open>
  A header has a token when the map holds the header name and one of its values, split on
  commas with each piece trimmed of surrounding white space, holds a piece equal to the
  token without regard to case.
\<close>

definition spec_has_token :: "Header \<Rightarrow> string \<Rightarrow> string \<Rightarrow> bool" where
  "spec_has_token header name token =
     (case header name of
        None \<Rightarrow> False
      | Some vs \<Rightarrow> \<exists>v \<in> set vs. \<exists>p \<in> set (spec_pieces v). spec_ci_equal token (spec_trim p))"

definition spec_isUpgrade :: "Header \<Rightarrow> bool" where
  "spec_isUpgrade header =
     (spec_has_token header ''Connection'' ''Upgrade''
      \<and> spec_has_token header ''Upgrade'' ''websocket'')"

section \<open>The session context and the values the relay handles\<close>

text \<open>A non-nil Go \<open>error\<close> value, by its message; \<open>nil\<close> is \<open>None\<close> of \<open>error option\<close>.\<close>

datatype error = Error string

text \<open>
  Connections (\<open>net.Conn\<close>, \<open>io.ReadWriter\<close>) and registered function values are opaque
  to this code: it stores them, compares them with \<open>nil\<close> and passes them on. They are
  modelled by their identity, a number.
\<close>

type_synonym Conn = nat
type_synonym func = nat

datatype WebSocketDirection = WebSocketClientToServer | WebSocketServerToClient

text \<open>
  Modelled from the spec: the declaration of \<open>ProxyCtx\<close> is not in websocket.go. The
  specification describes a session identifier and three optional handler slots; the slot
  names are the ones websocket.go reads, and \<open>None\<close> is the \<open>nil\<close> slot.
\<close>

record ProxyCtx =
  Session :: int
  WebSocketHandler :: "func option"
  WebSocketCopyHandler :: "func option"
  WebSocketCloseHandler :: "func option"

text \<open>
  Modelled from the spec: \<open>ProxyCtx.Warnf\<close> is declared outside websocket.go. The
  specification calls it the session's warning sink; the sink is the list of what was
  logged, each entry with the session it came from, the format string and the error
  argument.
\<close>

type_synonym warning = "int \<times> string \<times> error"

definition Warnf :: "ProxyCtx \<Rightarrow> string \<Rightarrow> error \<Rightarrow> warning list \<Rightarrow> warning list" where
  "Warnf ctx format err sink = sink @ [(Session ctx, format, err)]"

section \<open>The raw-connection acquirer (websocket.go, lines 65 to 77)\<close>

text \<open>
  \<open>http.ResponseWriter\<close> is an interface of the host. The type assertion of line 67
  asks whether the writer's dynamic type also implements \<open>http.Hijacker\<close>. A writer that
  does is modelled by what its \<open>Hijack\<close> method answers at each successive call (the
  connection and the error; the buffered reader the program drops is left out) and by the
  number of calls made so far, so that a second call would show.
\<close>

datatype ResponseWriter =
    NotHijacker
  | Hijacker "nat \<Rightarrow> Conn option \<times> error option" nat

text \<open>A call either panics with a message or returns.\<close>

datatype 'a outcome = Panic string | Returns 'a

text \<open>
  \<open>hijackConnection\<close> returns the pair \<open>(net.Conn, error)\<close>; the model returns with it the
  writer and the warning sink as the call leaves them.
\<close>

definition hijackConnection ::
  "ProxyCtx \<Rightarrow> ResponseWriter \<Rightarrow> warning list
     \<Rightarrow> ((Conn option \<times> error option) \<times> ResponseWriter \<times> warning list) outcome" where
  "hijackConnection ctx w sink =
     (case w of
        NotHijacker \<Rightarrow> Panic ''httpserver does not support hijacking''
      | Hijacker hj calls \<Rightarrow>
          (case hj calls of
             (clientConn, Some err) \<Rightarrow>
               Returns ((None, Some err), Hijacker hj (Suc calls),
                        Warnf ctx ''Hijack error: %v'' err sink)
           | (clientConn, None) \<Rightarrow>
               Returns ((clientConn, None), Hijacker hj (Suc calls), sink)))"

section \<open>The relay (websocket.go, lines 79 to 119)\<close>

text \<open>
  \<open>proxyWebsocket\<close> runs three threads: the caller's and the two goroutines it starts.
  The model is an interleaving of their statements. What the threads do to the world outside
  (calls of handlers with their arguments, their returns, operations on the channel) is
  written to a trace, each entry with the thread that did it.
\<close>

datatype thread = Main | Goroutine WebSocketDirection

datatype op =
    HandleWebSocket_call func Conn Conn ProxyCtx
  | HandleWebSocket_return
  | copyFunc_call Conn Conn WebSocketDirection
  | CopyHandler_call func Conn Conn WebSocketDirection ProxyCtx
  | CopyHandler_return "64 word" "error option"
  | copyOrWarn_call ProxyCtx Conn Conn
  | copyOrWarn_return "error option"
  | waitChan_send
  | waitChan_receive
  | CloseHandler_call func ProxyCtx
  | CloseHandler_return
  | Close_call Conn

type_synonym event = "thread \<times> op"

text \<open>
  Where the caller's thread stands. The names are the lines of websocket.go at which the
  thread is about to execute, or inside whose call it waits.
\<close>

datatype main_pc =
    L81 \<comment> \<open>at the test of \<open>ctx.WebSocketHandler\<close>\<close>
  | L82 \<comment> \<open>inside \<open>HandleWebSocket\<close>\<close>
  | L87 \<comment> \<open>at the \<open>defer\<close> statement\<close>
  | L106 \<comment> \<open>at the first \<open>go\<close> statement\<close>
  | L111 \<comment> \<open>at the second \<open>go\<close> statement\<close>
  | L117 \<comment> \<open>at the first receive\<close>
  | L118 \<comment> \<open>at the second receive\<close>
  | L88 \<comment> \<open>in the deferred function, at the test of \<open>ctx.WebSocketCloseHandler\<close>\<close>
  | L89 \<comment> \<open>inside the close handler\<close>
  | Returned

text \<open>Where a goroutine stands.\<close>

datatype goroutine_pc =
    NotStarted
  | Started \<comment> \<open>created by the \<open>go\<close> statement, at the call of \<open>copyFunc\<close> (line 107, 112)\<close>
  | L99 \<comment> \<open>in \<open>copyFunc\<close>, at the test of \<open>ctx.WebSocketCopyHandler\<close>\<close>
  | L100 \<comment> \<open>inside the copy handler\<close>
  | L103 \<comment> \<open>inside \<open>copyOrWarn\<close>\<close>
  | L108 "error option" \<comment> \<open>\<open>copyFunc\<close> has returned this error; at the send (line 108, 113)\<close>
  | Done

record state =
  ctx :: ProxyCtx
  remoteConn :: Conn
  proxyClient :: Conn
  main :: main_pc
  deferred :: bool \<comment> \<open>the \<open>defer\<close> statement of line 87 has run\<close>
  c2s :: goroutine_pc \<comment> \<open>the goroutine of lines 106 to 109\<close>
  s2c :: goroutine_pc \<comment> \<open>the goroutine of lines 111 to 114\<close>
  waitChan :: nat \<comment> \<open>how many values the channel of line 95 buffers, at most 2\<close>
  trace :: "event list"

definition proxyWebsocket_init :: "ProxyCtx \<Rightarrow> Conn \<Rightarrow> Conn \<Rightarrow> state" where
  "proxyWebsocket_init c remote client =
     \<lparr>ctx = c, remoteConn = remote, proxyClient = client, main = L81, deferred = False,
      c2s = NotStarted, s2c = NotStarted, waitChan = 0, trace = []\<rparr>"

definition emit :: "thread \<Rightarrow> op \<Rightarrow> state \<Rightarrow> state" where
  "emit t x s = s\<lparr>trace := trace s @ [(t, x)]\<rparr>"

definition goroutine :: "WebSocketDirection \<Rightarrow> state \<Rightarrow> goroutine_pc" where
  "goroutine d s = (case d of WebSocketClientToServer \<Rightarrow> c2s s | WebSocketServerToClient \<Rightarrow> s2c s)"

definition goroutine_update :: "WebSocketDirection \<Rightarrow> goroutine_pc \<Rightarrow> state \<Rightarrow> state" where
  "goroutine_update d pc s =
     (case d of
        WebSocketClientToServer \<Rightarrow> s\<lparr>c2s := pc\<rparr>
      | WebSocketServerToClient \<Rightarrow> s\<lparr>s2c := pc\<rparr>)"

text \<open>
  The arguments of the two calls of \<open>copyFunc\<close>: line 107 passes
  \<open>(remoteConn, proxyClient, WebSocketClientToServer)\<close> and line 112 passes
  \<open>(proxyClient, remoteConn, WebSocketServerToClient)\<close>.
\<close>

definition copy_dst :: "WebSocketDirection \<Rightarrow> state \<Rightarrow> Conn" where
  "copy_dst d s =
     (case d of WebSocketClientToServer \<Rightarrow> remoteConn s | WebSocketServerToClient \<Rightarrow> proxyClient s)"

definition copy_src :: "WebSocketDirection \<Rightarrow> state \<Rightarrow> Conn" where
  "copy_src d s =
     (case d of WebSocketClientToServer \<Rightarrow> proxyClient s | WebSocketServerToClient \<Rightarrow> remoteConn s)"

text \<open>
  Leaving \<open>proxyWebsocket\<close>, by the \<open>return\<close> of line 83 or at the end of the body: the
  deferred function runs if the \<open>defer\<close> statement was reached.
\<close>

definition leave :: "state \<Rightarrow> state" where
  "leave s = (if deferred s then s\<lparr>main := L88\<rparr> else s\<lparr>main := Returned\<rparr>)"

text \<open>A receive from the channel waits while the channel is empty.\<close>

definition receive :: "state \<Rightarrow> state option" where
  "receive s =
     (if waitChan s = 0 then None
      else Some (emit Main waitChan_receive (s\<lparr>waitChan := waitChan s - 1\<rparr>)))"

text \<open>The next statement of the caller's thread.\<close>

definition main_step :: "state \<Rightarrow> state option" where
  "main_step s =
     (case main s of
        L81 \<Rightarrow>
          (case WebSocketHandler (ctx s) of
             Some h \<Rightarrow>
               Some (emit Main (HandleWebSocket_call h (remoteConn s) (proxyClient s) (ctx s))
                       (s\<lparr>main := L82\<rparr>))
           | None \<Rightarrow> Some (s\<lparr>main := L87\<rparr>))
      | L87 \<Rightarrow> Some (s\<lparr>deferred := True, waitChan := 0, main := L106\<rparr>)
      | L106 \<Rightarrow> Some (s\<lparr>c2s := Started, main := L111\<rparr>)
      | L111 \<Rightarrow> Some (s\<lparr>s2c := Started, main := L117\<rparr>)
      | L117 \<Rightarrow> map_option (\<lambda>s'. s'\<lparr>main := L118\<rparr>) (receive s)
      | L118 \<Rightarrow> map_option leave (receive s)
      | L88 \<Rightarrow>
          (case WebSocketCloseHandler (ctx s) of
             Some h \<Rightarrow> Some (emit Main (CloseHandler_call h (ctx s)) (s\<lparr>main := L89\<rparr>))
           | None \<Rightarrow> Some (s\<lparr>main := Returned\<rparr>))
      | _ \<Rightarrow> None)"

text \<open>
  The handler the caller's thread waits in returns: \<open>HandleWebSocket\<close>, after which line 83
  returns, or the close handler, after which the deferred function and with it the call
  is over.
\<close>

definition main_return :: "state \<Rightarrow> state option" where
  "main_return s =
     (case main s of
        L82 \<Rightarrow> Some (leave (emit Main HandleWebSocket_return s))
      | L89 \<Rightarrow> Some (emit Main CloseHandler_return (s\<lparr>main := Returned\<rparr>))
      | _ \<Rightarrow> None)"

text \<open>
  The next statement of a goroutine: the call of \<open>copyFunc\<close>, the choice between the copy
  handler and \<open>copyOrWarn\<close> inside it (lines 99 to 103), and the send, which would wait on a
  full channel.
\<close>

definition goroutine_step :: "WebSocketDirection \<Rightarrow> state \<Rightarrow> state option" where
  "goroutine_step d s =
     (case goroutine d s of
        Started \<Rightarrow>
          Some (emit (Goroutine d) (copyFunc_call (copy_dst d s) (copy_src d s) d)
                  (goroutine_update d L99 s))
      | L99 \<Rightarrow>
          (case WebSocketCopyHandler (ctx s) of
             Some h \<Rightarrow>
               Some (emit (Goroutine d)
                       (CopyHandler_call h (copy_dst d s) (copy_src d s) d (ctx s))
                       (goroutine_update d L100 s))
           | None \<Rightarrow>
               Some (emit (Goroutine d) (copyOrWarn_call (ctx s) (copy_dst d s) (copy_src d s))
                       (goroutine_update d L103 s)))
      | L108 err \<Rightarrow>
          (if waitChan s < 2
           then Some (emit (Goroutine d) waitChan_send
                        (goroutine_update d Done (s\<lparr>waitChan := waitChan s + 1\<rparr>)))
           else None)
      | _ \<Rightarrow> None)"

text \<open>
  The copy handler returns \<open>(n, err)\<close> to line 100, which drops \<open>n\<close> and returns \<open>err\<close>
  from \<open>copyFunc\<close>; \<open>copyOrWarn\<close> returns \<open>err\<close> to line 103, which returns it.
\<close>

definition CopyHandler_returns ::
  "WebSocketDirection \<Rightarrow> 64 word \<Rightarrow> error option \<Rightarrow> state \<Rightarrow> state option" where
  "CopyHandler_returns d n err s =
     (case goroutine d s of
        L100 \<Rightarrow> Some (emit (Goroutine d) (CopyHandler_return n err) (goroutine_update d (L108 err) s))
      | _ \<Rightarrow> None)"

definition copyOrWarn_returns :: "WebSocketDirection \<Rightarrow> error option \<Rightarrow> state \<Rightarrow> state option" where
  "copyOrWarn_returns d err s =
     (case goroutine d s of
        L103 \<Rightarrow> Some (emit (Goroutine d) (copyOrWarn_return err) (goroutine_update d (L108 err) s))
      | _ \<Rightarrow> None)"

text \<open>
  One step of the system is chosen from outside: the scheduler picks a thread that runs its
  next statement, or a function of the embedding program returns to the thread that waits in
  it, with the values it returns. A step that cannot be taken in the state is \<open>None\<close>.
\<close>

datatype action =
    Run thread
  | Handler_returns
  | Copy_returns WebSocketDirection "64 word" "error option"
  | Default_returns WebSocketDirection "error option"

definition proxyWebsocket_step :: "action \<Rightarrow> state \<Rightarrow> state option" where
  "proxyWebsocket_step a s =
     (case a of
        Run Main \<Rightarrow> main_step s
      | Run (Goroutine d) \<Rightarrow> goroutine_step d s
      | Handler_returns \<Rightarrow> main_return s
      | Copy_returns d n err \<Rightarrow> CopyHandler_returns d n err s
      | Default_returns d err \<Rightarrow> copyOrWarn_returns d err s)"

fun proxyWebsocket_run :: "action list \<Rightarrow> state \<Rightarrow> state option" where
  "proxyWebsocket_run [] s = Some s"
| "proxyWebsocket_run (a # as) s =
     (case proxyWebsocket_step a s of
        None \<Rightarrow> None
      | Some s' \<Rightarrow> proxyWebsocket_run as s')"

section \<open>UTF-8 decoding, by cases\<close>

lemma mod_range:
  fixes a b k :: nat
  assumes "k * a \<le> b" and "b < k * a + a"
  shows "b mod a = b - k * a"
proof -
  from assms(1) have "b = (b - k * a) + k * a" by simp
  then have "b mod a = ((b - k * a) + k * a) mod a" by simp
  also have "\<dots> = (b - k * a) mod a" by simp
  also have "\<dots> = b - k * a" using assms by simp
  finally show ?thesis .
qed

lemma lead2_mod: "0xC2 \<le> b \<Longrightarrow> b < 0xE0 \<Longrightarrow> b mod 32 = b - 0xC0" for b :: nat
  using mod_range [of 6 32 b] by simp

lemma lead3_mod: "0xE0 \<le> b \<Longrightarrow> b < 0xF0 \<Longrightarrow> b mod 16 = b - 0xE0" for b :: nat
  using mod_range [of 14 16 b] by simp

lemma lead4_mod: "0xF0 \<le> b \<Longrightarrow> b \<le> 0xF4 \<Longrightarrow> b mod 8 = b - 0xF0" for b :: nat
  using mod_range [of 30 8 b] by simp

lemma cont_mod: "0x80 \<le> b \<Longrightarrow> b \<le> 0xBF \<Longrightarrow> b mod 64 = b - 0x80" for b :: nat
  using mod_range [of 2 64 b] by simp

lemma Decode_cases [consumes 1, case_names ascii two three four invalid]:
  assumes "t \<noteq> []"
  obtains
    c cs where "t = c # cs" "byte c < 0x80" "DecodeRuneInString t = (byte c, 1)"
  | c c1 cs x y where "t = c # c1 # cs" "byte c = 0xC0 + x" "byte c1 = 0x80 + y"
      "2 \<le> x" "x < 32" "y < 64" "DecodeRuneInString t = (x * 64 + y, 2)"
  | c c1 c2 cs x y z where "t = c # c1 # c2 # cs" "byte c = 0xE0 + x" "byte c1 = 0x80 + y"
      "byte c2 = 0x80 + z" "x < 16" "y < 64" "z < 64" "x = 0 \<longrightarrow> 32 \<le> y" "x = 13 \<longrightarrow> y < 32"
      "DecodeRuneInString t = (x * 4096 + y * 64 + z, 3)"
  | c c1 c2 c3 cs r where "t = c # c1 # c2 # c3 # cs" "0xF0 \<le> byte c" "0x80 \<le> byte c1"
      "0x80 \<le> byte c2" "0x80 \<le> byte c3" "0x10000 \<le> r" "DecodeRuneInString t = (r, 4)"
  | c cs where "t = c # cs" "0x80 \<le> byte c" "DecodeRuneInString t = (RuneError, 1)"
proof -
  from assms obtain c cs where t: "t = c # cs" by (cases t) auto
  define b0 where "b0 = byte c"
  show thesis
  proof (cases "b0 < 0x80")
    case True
    then show thesis using that(1) [of c cs] t by (simp add: b0_def)
  next
    case hi: False
    have inv: thesis if "DecodeRuneInString t = (RuneError, 1)"
      using that hi t \<open>\<And>c cs. \<lbrakk>t = c # cs; 0x80 \<le> byte c; DecodeRuneInString t = (RuneError, 1)\<rbrakk> \<Longrightarrow> thesis\<close>
      by (simp add: b0_def)
    show thesis
    proof (cases "b0 < 0xC2 \<or> 0xF4 < b0")
      case True
      with hi t show thesis by (intro inv) (auto simp: b0_def Let_def)
    next
      case lead: False
      show thesis
      proof (cases cs)
        case Nil
        with hi lead t show thesis by (intro inv) (auto simp: b0_def Let_def)
      next
        case (Cons c1 cs1)
        define b1 where "b1 = byte c1"
        show thesis
        proof (cases "accepts b0 b1")
          case False
          with hi lead t Cons show thesis by (intro inv) (auto simp: b0_def b1_def Let_def)
        next
          case acc: True
          then have c1: "0x80 \<le> b1" "b1 \<le> 0xBF"
            by (auto simp: accepts_def split: if_splits)
          show thesis
          proof (cases "b0 < 0xE0")
            case True
            with hi lead acc t Cons have
              d: "DecodeRuneInString t = ((b0 mod 32) * 64 + b1 mod 64, 2)"
              by (simp add: b0_def b1_def Let_def)
            from True lead have m0: "b0 mod 32 = b0 - 0xC0" by (intro lead2_mod) auto
            from c1 have m1: "b1 mod 64 = b1 - 0x80" by (intro cont_mod) auto
            show thesis
              using that(2) [of c c1 cs1 "b0 - 0xC0" "b1 - 0x80"] t Cons d m0 m1 True lead c1
              by (simp add: b0_def b1_def)
          next
            case ge3: False
            show thesis
            proof (cases cs1)
              case Nil
              with hi lead acc ge3 t Cons show thesis
                by (intro inv) (auto simp: b0_def b1_def Let_def)
            next
              case (Cons c2 cs2)
              note cs1 = this
              define b2 where "b2 = byte c2"
              show thesis
              proof (cases "is_cont b2")
                case False
                with hi lead acc ge3 t \<open>cs = c1 # cs1\<close> cs1 show thesis
                  by (intro inv) (auto simp: b0_def b1_def b2_def Let_def)
              next
                case c2: True
                then have c2': "0x80 \<le> b2" "b2 \<le> 0xBF" by (auto simp: is_cont_def)
                show thesis
                proof (cases "b0 < 0xF0")
                  case True
                  with hi lead acc ge3 c2 t \<open>cs = c1 # cs1\<close> cs1 have
                    d: "DecodeRuneInString t
                          = ((b0 mod 16) * 4096 + (b1 mod 64) * 64 + b2 mod 64, 3)"
                    by (simp add: b0_def b1_def b2_def Let_def)
                  from True ge3 have m0: "b0 mod 16 = b0 - 0xE0" by (intro lead3_mod) auto
                  from c1 have m1: "b1 mod 64 = b1 - 0x80" by (intro cont_mod) auto
                  from c2' have m2: "b2 mod 64 = b2 - 0x80" by (intro cont_mod) auto
                  from acc True ge3 have a0: "b0 - 0xE0 = 0 \<longrightarrow> 32 \<le> b1 - 0x80"
                    and a13: "b0 - 0xE0 = 13 \<longrightarrow> b1 - 0x80 < 32"
                    by (auto simp: accepts_def split: if_splits)
                  show thesis
                    using that(3) [of c c1 c2 cs2 "b0 - 0xE0" "b1 - 0x80" "b2 - 0x80"]
                      t \<open>cs = c1 # cs1\<close> cs1 d m0 m1 m2 True ge3 c1 c2' a0 a13
                    by (simp add: b0_def b1_def b2_def)
                next
                  case ge4: False
                  show thesis
                  proof (cases cs2)
                    case Nil
                    with hi lead acc ge3 ge4 c2 t \<open>cs = c1 # cs1\<close> cs1 show thesis
                      by (intro inv) (auto simp: b0_def b1_def b2_def Let_def)
                  next
                    case (Cons c3 cs3)
                    define b3 where "b3 = byte c3"
                    show thesis
                    proof (cases "is_cont b3")
                      case False
                      with hi lead acc ge3 ge4 c2 t \<open>cs = c1 # cs1\<close> cs1 Cons show thesis
                        by (intro inv) (auto simp: b0_def b1_def b2_def b3_def Let_def)
                    next
                      case c3: True
                      then have c3': "0x80 \<le> b3" "b3 \<le> 0xBF" by (auto simp: is_cont_def)
                      from hi lead acc ge3 ge4 c2 c3 t \<open>cs = c1 # cs1\<close> cs1 Cons have
                        d: "DecodeRuneInString t
                              = ((b0 mod 8) * 262144 + (b1 mod 64) * 4096 + (b2 mod 64) * 64
                                   + b3 mod 64, 4)"
                        by (simp add: b0_def b1_def b2_def b3_def Let_def)
                      from ge4 lead have m0: "b0 mod 8 = b0 - 0xF0" by (intro lead4_mod) auto
                      from c1 have m1: "b1 mod 64 = b1 - 0x80" by (intro cont_mod) auto
                      from acc ge4 have "b0 = 0xF0 \<longrightarrow> 0x90 \<le> b1"
                        by (auto simp: accepts_def split: if_splits)
                      with ge4 c1 m0 m1
                      have big: "0x10000 \<le> (b0 mod 8) * 262144 + (b1 mod 64) * 4096
                                   + (b2 mod 64) * 64 + b3 mod 64"
                        by (cases "b0 = 0xF0") auto
                      show thesis
                        using that(4) [of c c1 c2 c3 cs3] t \<open>cs = c1 # cs1\<close> cs1 Cons d big
                          ge4 c1 c2' c3'
                        by (simp add: b0_def b1_def b2_def b3_def)
                    qed
                  qed
                qed
              qed
            qed
          qed
        qed
      qed
    qed
  qed
qed

lemma digits2:
  fixes x y a b :: nat
  assumes "y < 64" and "b < 64"
  shows "x * 64 + y = a * 64 + b \<longleftrightarrow> x = a \<and> y = b"
proof
  assume eq: "x * 64 + y = a * 64 + b"
  then have "(x * 64 + y) div 64 = (a * 64 + b) div 64" and "(x * 64 + y) mod 64 = (a * 64 + b) mod 64"
    by simp_all
  with assms show "x = a \<and> y = b" by simp
qed simp

lemma digits3:
  fixes x y z a b c :: nat
  assumes "y < 64" and "z < 64" and "b < 64" and "c < 64"
  shows "x * 4096 + y * 64 + z = a * 4096 + b * 64 + c \<longleftrightarrow> x = a \<and> y = b \<and> z = c"
proof -
  have e: "x * 4096 + y * 64 + z = (x * 64 + y) * 64 + z" "a * 4096 + b * 64 + c = (a * 64 + b) * 64 + c"
    by simp_all
  show ?thesis
    unfolding e digits2 [OF assms(2,4)] digits2 [OF assms(1,3)] by blast
qed

lemma Decode_long_s:
  "map byte (take 2 t) = [0xC5, 0xBF] \<Longrightarrow> DecodeRuneInString t = (0x17F, 2)"
  by (cases t; cases "tl t"; simp add: Let_def accepts_def)

lemma Decode_kelvin:
  "map byte (take 3 t) = [0xE2, 0x84, 0xAA] \<Longrightarrow> DecodeRuneInString t = (0x212A, 3)"
  by (cases t; cases "tl t"; cases "tl (tl t)"; simp add: Let_def accepts_def is_cont_def)

lemma rune_017F: "y < 64 \<Longrightarrow> x * 64 + y = 0x17F \<longleftrightarrow> x = 5 \<and> y = 63" for x y :: nat
  using digits2 [of y 63 x 5] by simp

lemma rune_212A:
  "y < 64 \<Longrightarrow> z < 64 \<Longrightarrow> x * 4096 + y * 64 + z = 0x212A \<longleftrightarrow> x = 2 \<and> y = 4 \<and> z = 42"
  for x y z :: nat
  using digits3 [of y z 4 42 x 2] by simp

lemma three_ge: "x = 0 \<longrightarrow> 32 \<le> y \<Longrightarrow> 0x800 \<le> x * 4096 + y * 64 + z" for x y z :: nat
  by (cases "x = 0") auto

lemma spec_lower_eq:
  "a < 0x80 \<Longrightarrow> b < 0x80 \<Longrightarrow> rune_EqualFold a b \<longleftrightarrow> spec_lower a = spec_lower b"
  by (auto simp: rune_EqualFold_def spec_lower_def Let_def min_def max_def)

lemma rune_EqualFold_high:
  "a < 0x80 \<Longrightarrow> 0x80 \<le> r \<Longrightarrow>
     rune_EqualFold a r \<longleftrightarrow> r = 0x212A \<and> spec_lower a = 0x6B \<or> r = 0x17F \<and> spec_lower a = 0x73"
  by (auto simp: rune_EqualFold_def spec_lower_def Let_def min_def max_def)

lemma spec_letter_width_Decode:
  assumes "byte c < 0x80" and "t \<noteq> []"
  shows "spec_letter_width c t
           = (if rune_EqualFold (byte c) (fst (DecodeRuneInString t))
              then snd (DecodeRuneInString t) else 0)"
  using assms(2)
proof (cases rule: Decode_cases)
  case (ascii c' cs)
  with assms(1) show ?thesis
    by (auto simp: spec_letter_width_def spec_lower_eq simp del: DecodeRuneInString.simps)
next
  case (two c' c1 cs x y)
  then have r: "0x80 \<le> x * 64 + y" and r': "x * 64 + y \<noteq> 0x212A" by simp_all
  from two assms(1) show ?thesis
    by (simp add: spec_letter_width_def rune_EqualFold_high [OF assms(1) r] r' rune_017F
          del: DecodeRuneInString.simps)
next
  case (three c' c1 c2 cs x y z)
  from three(8) have "0x800 \<le> x * 4096 + y * 64 + z" by (rule three_ge)
  then have r: "0x80 \<le> x * 4096 + y * 64 + z" and r': "x * 4096 + y * 64 + z \<noteq> 0x17F" by simp_all
  from three assms(1) show ?thesis
    by (simp add: spec_letter_width_def rune_EqualFold_high [OF assms(1) r] r' rune_212A
          del: DecodeRuneInString.simps)
next
  case (four c' c1 c2 c3 cs r)
  then have r: "0x80 \<le> r" and r': "r \<noteq> 0x17F" "r \<noteq> 0x212A" by simp_all
  from four assms(1) show ?thesis
    by (simp add: spec_letter_width_def rune_EqualFold_high [OF assms(1) r] r'
          del: DecodeRuneInString.simps)
next
  case (invalid c' cs)
  have r: "0x80 \<le> RuneError" and r': "RuneError \<noteq> 0x17F" "RuneError \<noteq> 0x212A"
    by (simp_all add: RuneError_def)
  have n1: "map byte (take 2 t) \<noteq> [0xC5, 0xBF]"
    using Decode_long_s [of t] invalid(3) by (auto simp: RuneError_def)
  have n2: "map byte (take 3 t) \<noteq> [0xE2, 0x84, 0xAA]"
    using Decode_kelvin [of t] invalid(3) by (auto simp: RuneError_def)
  from invalid(2,3) assms(1) n1 n2 show ?thesis
    unfolding invalid(1) [symmetric]
    by (simp add: spec_letter_width_def rune_EqualFold_high [OF assms(1) r] r' invalid(1)
          del: DecodeRuneInString.simps split: list.splits)
qed

lemma white2: "y < 64 \<Longrightarrow> IsSpace (x * 64 + y) \<longleftrightarrow> x = 2 \<and> (y = 5 \<or> y = 32)"
  if "2 \<le> x" "x < 32" for x y :: nat
proof -
  assume y: "y < 64"
  from that y have "0x80 \<le> x * 64 + y" "x * 64 + y < 0x800" by simp_all
  then have "IsSpace (x * 64 + y) \<longleftrightarrow> x * 64 + y = 0x85 \<or> x * 64 + y = 0xA0"
    by (auto simp: IsSpace_def)
  also have "\<dots> \<longleftrightarrow> x = 2 \<and> (y = 5 \<or> y = 32)"
    using digits2 [of y 5 x 2] digits2 [of y 32 x 2] y by auto
  finally show ?thesis .
qed

lemma white3:
  fixes x y z :: nat
  assumes "y < 64" and "z < 64" and "x < 16" and "x = 0 \<longrightarrow> 32 \<le> y"
  shows "IsSpace (x * 4096 + y * 64 + z) \<longleftrightarrow>
           x = 1 \<and> y = 26 \<and> z = 0
         \<or> x = 2 \<and> y = 0 \<and> (z \<le> 10 \<or> z = 40 \<or> z = 41 \<or> z = 47)
         \<or> x = 2 \<and> y = 1 \<and> z = 31
         \<or> x = 3 \<and> y = 0 \<and> z = 0"
proof -
  let ?r = "x * 4096 + y * 64 + z"
  from assms(4) have ge: "0x800 \<le> ?r" by (rule three_ge)
  have range: "0x2000 \<le> ?r \<and> ?r \<le> 0x200A \<longleftrightarrow> x = 2 \<and> y = 0 \<and> z \<le> 10"
  proof
    assume r: "0x2000 \<le> ?r \<and> ?r \<le> 0x200A"
    with assms(1,2) have "x = 2" by (cases "x < 2"; cases "2 < x") auto
    with r assms(1,2) have "y = 0" by (cases "y = 0") auto
    with \<open>x = 2\<close> r show "x = 2 \<and> y = 0 \<and> z \<le> 10" by simp
  qed auto
  from ge have "IsSpace ?r \<longleftrightarrow>
      ?r = 0x1680 \<or> (0x2000 \<le> ?r \<and> ?r \<le> 0x200A) \<or> ?r = 0x2028 \<or> ?r = 0x2029
      \<or> ?r = 0x202F \<or> ?r = 0x205F \<or> ?r = 0x3000"
    by (auto simp: IsSpace_def)
  also have "\<dots> \<longleftrightarrow>
           x = 1 \<and> y = 26 \<and> z = 0
         \<or> x = 2 \<and> y = 0 \<and> (z \<le> 10 \<or> z = 40 \<or> z = 41 \<or> z = 47)
         \<or> x = 2 \<and> y = 1 \<and> z = 31
         \<or> x = 3 \<and> y = 0 \<and> z = 0"
    unfolding range
    using digits3 [OF assms(1,2), of 26 0 x 1] digits3 [OF assms(1,2), of 0 40 x 2]
      digits3 [OF assms(1,2), of 0 41 x 2] digits3 [OF assms(1,2), of 0 47 x 2]
      digits3 [OF assms(1,2), of 1 31 x 2] digits3 [OF assms(1,2), of 0 0 x 3]
    by auto
  finally show ?thesis .
qed

lemma w1: "spec_is_white (map byte (take 1 t)) \<Longrightarrow> byte (hd t) < 0x80"
  by (cases t) auto

lemma Decode_width2:
  "0xC2 \<le> byte c \<Longrightarrow> byte c < 0xE0 \<Longrightarrow> 0x80 \<le> byte c1 \<Longrightarrow> byte c1 \<le> 0xBF
     \<Longrightarrow> snd (DecodeRuneInString (c # c1 # cs)) = 2"
  by (simp add: Let_def accepts_def)

lemma Decode_width3:
  "0xE1 \<le> byte c \<Longrightarrow> byte c < 0xED \<Longrightarrow> 0x80 \<le> byte c1 \<Longrightarrow> byte c1 \<le> 0xBF
     \<Longrightarrow> 0x80 \<le> byte c2 \<Longrightarrow> byte c2 \<le> 0xBF
     \<Longrightarrow> snd (DecodeRuneInString (c # c1 # c2 # cs)) = 3"
  by (simp add: Let_def accepts_def is_cont_def)

lemma w2:
  assumes "spec_is_white (map byte (take 2 t))" and "\<not> spec_is_white (map byte (take 1 t))"
  shows "snd (DecodeRuneInString t) = 2"
proof -
  from assms obtain c c1 cs where t: "t = c # c1 # cs"
    by (cases t; cases "tl t") auto
  with assms(1) have "byte c = 0xC2" "byte c1 = 0x85 \<or> byte c1 = 0xA0" by simp_all
  then have "0xC2 \<le> byte c" "byte c < 0xE0" "0x80 \<le> byte c1" "byte c1 \<le> 0xBF" by auto
  then show ?thesis unfolding t by (rule Decode_width2)
qed

lemma w3:
  assumes "spec_is_white (map byte (take 3 t))" and "\<not> spec_is_white (map byte (take 2 t))"
    and "\<not> spec_is_white (map byte (take 1 t))"
  shows "snd (DecodeRuneInString t) = 3"
proof -
  from assms obtain c c1 c2 cs where t: "t = c # c1 # c2 # cs"
    by (cases t; cases "tl t"; cases "tl (tl t)") auto
  with assms(1) have "0xE1 \<le> byte c" "byte c < 0xED" "0x80 \<le> byte c1" "byte c1 \<le> 0xBF"
     "0x80 \<le> byte c2" "byte c2 \<le> 0xBF"
    by auto
  then show ?thesis unfolding t by (rule Decode_width3)
qed

lemma spec_space_width_Decode:
  assumes "t \<noteq> []"
  shows "spec_space_width t
           = (if IsSpace (fst (DecodeRuneInString t)) then snd (DecodeRuneInString t) else 0)"
  using assms
proof (cases rule: Decode_cases)
  case (ascii c cs)
  then show ?thesis
    by (cases cs; cases "tl cs")
       (auto simp: spec_space_width_def IsSpace_def simp del: DecodeRuneInString.simps)
next
  case (two c c1 cs x y)
  then show ?thesis
    by (cases cs)
       (auto simp: spec_space_width_def white2 simp del: DecodeRuneInString.simps)
next
  case (three c c1 c2 cs x y z)
  then show ?thesis
    by (auto simp: spec_space_width_def white3 simp del: DecodeRuneInString.simps)
next
  case (four c c1 c2 c3 cs r)
  then show ?thesis
    by (auto simp: spec_space_width_def IsSpace_def simp del: DecodeRuneInString.simps)
next
  case (invalid c cs)
  then have "\<not> byte (hd t) < 0x80" "snd (DecodeRuneInString t) = 1"
    and "\<not> IsSpace (fst (DecodeRuneInString t))"
    by (simp_all add: RuneError_def IsSpace_def del: DecodeRuneInString.simps)
  with w1 [of t] w2 [of t] w3 [of t] show ?thesis
    by (auto simp: spec_space_width_def simp del: DecodeRuneInString.simps)
qed

lemma rev_upt_Cons: "a < b \<Longrightarrow> rev [a..<b] = (b - 1) # rev [a..<b - 1]"
  by (cases b) simp_all

lemma find_start2:
  assumes "t = pre @ [y, z]" and "RuneStart y"
  shows "find (\<lambda>p. RuneStart (t ! p)) (rev [length t - 4 ..< length t - 1]) = Some (length t - 2)"
proof -
  have "length t - 4 < length t - 1" using assms(1) by simp
  then have "rev [length t - 4 ..< length t - 1]
               = (length t - 2) # rev [length t - 4 ..< length t - 2]"
    using rev_upt_Cons [of "length t - 4" "length t - 1"] by (simp add: numeral_2_eq_2)
  moreover have "t ! (length t - 2) = y" using assms(1) by (simp add: nth_append)
  ultimately show ?thesis using assms(2) by simp
qed

lemma find_start3:
  assumes "t = pre @ [x, y, z]" and "\<not> RuneStart y" and "RuneStart x"
  shows "find (\<lambda>p. RuneStart (t ! p)) (rev [length t - 4 ..< length t - 1]) = Some (length t - 3)"
proof -
  have "length t - 4 < length t - 1" "length t - 4 < length t - 2" using assms(1) by simp_all
  then have "rev [length t - 4 ..< length t - 1]
               = (length t - 2) # (length t - 3) # rev [length t - 4 ..< length t - 3]"
    using rev_upt_Cons [of "length t - 4" "length t - 1"]
      rev_upt_Cons [of "length t - 4" "length t - 2"]
    by (simp add: numeral_2_eq_2 numeral_3_eq_3)
  moreover have "t ! (length t - 2) = y" "t ! (length t - 3) = x"
    using assms(1) by (simp_all add: nth_append)
  ultimately show ?thesis using assms(2,3) by simp
qed

lemma spec_space_width_le: "spec_space_width u \<le> 3"
  by (simp add: spec_space_width_def)

lemma spec_space_width_full:
  "spec_space_width u = length u \<Longrightarrow> u \<noteq> [] \<Longrightarrow> spec_is_white (map byte u)"
  by (auto simp: spec_space_width_def split: if_splits)

lemma white_shapes:
  assumes "spec_is_white bs"
  obtains b where "bs = [b]" "b < 0x80"
  | b1 where "bs = [0xC2, b1]" "0x80 \<le> b1" "b1 \<le> 0xBF"
  | b0 b1 b2 where "bs = [b0, b1, b2]" "0xE1 \<le> b0" "b0 \<le> 0xE3" "0x80 \<le> b1" "b1 \<le> 0xBF"
      "0x80 \<le> b2" "b2 \<le> 0xBF"
  using assms by (cases bs rule: spec_is_white.cases) auto

lemma suffix_split:
  assumes "map byte (drop (length t - k) t) = bs" and "length bs = k"
  shows "\<exists>pre u. t = pre @ u \<and> map byte u = bs \<and> length u = k"
  using assms by (intro exI [of _ "take (length t - k) t"] exI [of _ "drop (length t - k) t"]) auto

lemma DecodeLast_unfold:
  assumes "t \<noteq> []" and "\<not> byte (last t) < 0x80"
  shows "\<exists>start. start < length t
           \<and> (find (\<lambda>p. RuneStart (t ! p)) (rev [length t - 4 ..< length t - 1]) = Some start
               \<or> find (\<lambda>p. RuneStart (t ! p)) (rev [length t - 4 ..< length t - 1]) = None)
           \<and> DecodeLastRuneInString t
               = (if start + snd (DecodeRuneInString (drop start t)) \<noteq> length t
                  then (RuneError, 1) else DecodeRuneInString (drop start t))"
proof (cases "find (\<lambda>p. RuneStart (t ! p)) (rev [length t - 4 ..< length t - 1])")
  case None
  with assms show ?thesis
    by (intro exI [of _ "length t - 4 - 1"])
       (auto simp: DecodeLastRuneInString_def Let_def split: prod.splits
          simp del: DecodeRuneInString.simps)
next
  case (Some p)
  then have "p \<in> set (rev [length t - 4 ..< length t - 1])"
    by (metis find_Some_iff nth_mem)
  then have "p < length t" by auto
  with Some assms show ?thesis
    by (intro exI [of _ p])
       (auto simp: DecodeLastRuneInString_def Let_def split: prod.splits
          simp del: DecodeRuneInString.simps)
qed

lemma DecodeLast_at:
  assumes "t \<noteq> []" and "\<not> byte (last t) < 0x80"
    and "find (\<lambda>p. RuneStart (t ! p)) (rev [length t - 4 ..< length t - 1]) = Some p"
  shows "DecodeLastRuneInString t
           = (if p + snd (DecodeRuneInString (drop p t)) \<noteq> length t
              then (RuneError, 1) else DecodeRuneInString (drop p t))"
  using assms
  by (auto simp: DecodeLastRuneInString_def Let_def split: prod.splits
        simp del: DecodeRuneInString.simps)

lemma not_space_RuneError: "\<not> IsSpace RuneError"
  by (simp add: IsSpace_def RuneError_def)

lemma white_ascii: "b < 0x80 \<Longrightarrow> spec_is_white [b] \<longleftrightarrow> IsSpace b"
  by (auto simp: IsSpace_def)

text \<open>A string that ends with the encoding of a white-space character of two or three bytes.\<close>

lemma DecodeLast_white2:
  assumes "t = pre @ [y, z]" and "spec_is_white [byte y, byte z]"
  shows "IsSpace (fst (DecodeLastRuneInString t))" and "snd (DecodeLastRuneInString t) = 2"
proof -
  from assms(2) have y: "byte y = 0xC2" and z: "0x80 \<le> byte z" by auto
  then have rs: "RuneStart y" by (simp add: RuneStart_def)
  have ne: "t \<noteq> []" and last: "\<not> byte (last t) < 0x80" using assms(1) z by simp_all
  have d: "drop (length t - 2) t = [y, z]" using assms(1) by simp
  have w: "spec_space_width [y, z] = 2"
    using assms(2) y by (simp add: spec_space_width_def)
  from spec_space_width_Decode [of "[y, z]"] w
  have sp: "IsSpace (fst (DecodeRuneInString [y, z]))" and n: "snd (DecodeRuneInString [y, z]) = 2"
    by (auto split: if_splits simp del: DecodeRuneInString.simps)
  have len: "length t - 2 + 2 = length t" using assms(1) by simp
  from DecodeLast_at [OF ne last find_start2 [OF assms(1) rs]] d n len
  have "DecodeLastRuneInString t = DecodeRuneInString [y, z]"
    by (simp del: DecodeRuneInString.simps)
  with sp n show "IsSpace (fst (DecodeLastRuneInString t))" and "snd (DecodeLastRuneInString t) = 2"
    by simp_all
qed

lemma DecodeLast_white3:
  assumes "t = pre @ [x, y, z]" and "spec_is_white [byte x, byte y, byte z]"
  shows "IsSpace (fst (DecodeLastRuneInString t))" and "snd (DecodeLastRuneInString t) = 3"
proof -
  from assms(2) have x: "0xE1 \<le> byte x" and yy: "0x80 \<le> byte y" "byte y \<le> 0xBF"
    and z: "0x80 \<le> byte z"
    by auto
  then have rs: "RuneStart x" "\<not> RuneStart y" by (simp_all add: RuneStart_def)
  have ne: "t \<noteq> []" and last: "\<not> byte (last t) < 0x80" using assms(1) z by simp_all
  have d: "drop (length t - 3) t = [x, y, z]" using assms(1) by simp
  have w: "spec_space_width [x, y, z] = 3"
    using assms(2) x yy by (auto simp: spec_space_width_def)
  from spec_space_width_Decode [of "[x, y, z]"] w
  have sp: "IsSpace (fst (DecodeRuneInString [x, y, z]))"
    and n: "snd (DecodeRuneInString [x, y, z]) = 3"
    by (auto split: if_splits simp del: DecodeRuneInString.simps)
  have len: "length t - 3 + 3 = length t" using assms(1) by simp
  from DecodeLast_at [OF ne last find_start3 [OF assms(1) rs(2,1)]] d n len
  have "DecodeLastRuneInString t = DecodeRuneInString [x, y, z]"
    by (simp del: DecodeRuneInString.simps)
  with sp n show "IsSpace (fst (DecodeLastRuneInString t))" and "snd (DecodeLastRuneInString t) = 3"
    by simp_all
qed

lemma white_last_ascii:
  assumes "spec_is_white bs" and "last bs < 0x80"
  shows "length bs = 1"
  using assms(1)
proof (cases rule: white_shapes)
  case (1 b)
  then show ?thesis by simp
next
  case (2 b1)
  with assms(2) show ?thesis by simp
next
  case (3 b0 b1 b2)
  with assms(2) show ?thesis by simp
qed

lemma spec_space_width_end_DecodeLast:
  assumes ne: "t \<noteq> []"
  shows "spec_space_width_end t
           = (if IsSpace (fst (DecodeLastRuneInString t))
              then snd (DecodeLastRuneInString t) else 0)"
proof -
  let ?n = "length t"
  have k1: "drop (?n - 1) t = [last t]"
    using ne by (cases t rule: rev_cases) simp_all
  have lastk: "last (map byte (drop (?n - k) t)) = byte (last t)" if "1 \<le> k" for k
  proof -
    from ne that have "drop (?n - k) t \<noteq> []" by (cases t) auto
    then show ?thesis by (simp add: last_map)
  qed
  show ?thesis
  proof (cases "byte (last t) < 0x80")
    case True
    with ne have dl: "DecodeLastRuneInString t = (byte (last t), 1)"
      by (simp add: DecodeLastRuneInString_def)
    have longer: "\<not> spec_is_white (map byte (drop (?n - k) t))"
      if "\<not> spec_is_white [byte (last t)]" and "1 \<le> k" for k
    proof
      assume w: "spec_is_white (map byte (drop (?n - k) t))"
      from white_last_ascii [OF w] lastk [OF that(2)] True
      have "length (drop (?n - k) t) = 1" by simp
      then have "drop (?n - k) t = [last t]"
        by (metis One_nat_def append_butlast_last_id append_eq_conv_conj diff_diff_cancel
            diff_le_self k1 length_drop ne)
      with w that(1) show False by simp
    qed
    have w1: "spec_is_white (map byte (drop (?n - 1) t)) \<longleftrightarrow> IsSpace (byte (last t))"
      unfolding k1 using white_ascii [OF True] by simp
    show ?thesis
    proof (cases "IsSpace (byte (last t))")
      case sp: True
      then show ?thesis
        unfolding spec_space_width_end_def w1 dl by simp
    next
      case nsp: False
      then have "\<not> spec_is_white [byte (last t)]"
        using white_ascii [OF True] by simp
      from longer [OF this, of 2] longer [OF this, of 3] nsp show ?thesis
        unfolding spec_space_width_end_def w1 dl by simp
    qed
  next
    case False
    then have c1: "\<not> spec_is_white (map byte (drop (?n - 1) t))"
      unfolding k1 by auto
    show ?thesis
    proof (cases "spec_is_white (map byte (drop (?n - 2) t))")
      case True
      then obtain y z where "drop (?n - 2) t = [y, z]"
      proof (cases rule: white_shapes)
        case (1 b)
        then have "length (drop (?n - 2) t) = 1" by (metis length_map length_Cons list.size(3) One_nat_def)
        then have "?n - (?n - 2) = 1" by simp
        moreover have "0 < ?n" using ne by simp
        ultimately have "?n = 1" by arith
        with 1 True c1 show ?thesis by simp
      next
        case (2 b1)
        then obtain y z where "drop (?n - 2) t = [y, z]"
          by (auto simp: map_eq_Cons_conv)
        with that show ?thesis by simp
      next
        case (3 b0 b1 b2)
        then have "length (drop (?n - 2) t) = 3"
          by (metis length_map length_Cons list.size(3) numeral_3_eq_3)
        then have "?n - (?n - 2) = 3" by simp
        then show ?thesis by arith
      qed
      then have t: "t = take (?n - 2) t @ [y, z]" and w: "spec_is_white [byte y, byte z]"
        using True by (simp_all, metis append_take_drop_id)
      from DecodeLast_white2 [OF t w] c1 True show ?thesis
        by (simp add: spec_space_width_end_def)
    next
      case c2: False
      show ?thesis
      proof (cases "spec_is_white (map byte (drop (?n - 3) t))")
        case True
        then obtain x y z where "drop (?n - 3) t = [x, y, z]"
        proof (cases rule: white_shapes)
          case (1 b)
          then have "length (drop (?n - 3) t) = 1"
            by (metis length_map length_Cons list.size(3) One_nat_def)
          then have "?n - (?n - 3) = 1" by simp
          moreover have "0 < ?n" using ne by simp
          ultimately have "?n = 1" by arith
          with 1 True c1 show ?thesis by simp
        next
          case (2 b1)
          then have "length (drop (?n - 3) t) = 2"
            by (metis length_map length_Cons list.size(3) numeral_2_eq_2)
          then have "?n - (?n - 3) = 2" by simp
          then have "?n = 2" by arith
          with True c2 show ?thesis by simp
        next
          case (3 b0 b1 b2)
          then obtain x y z where "drop (?n - 3) t = [x, y, z]"
            by (auto simp: map_eq_Cons_conv)
          with that show ?thesis by simp
        qed
        then have t: "t = take (?n - 3) t @ [x, y, z]" and w: "spec_is_white [byte x, byte y, byte z]"
          using True by (simp_all, metis append_take_drop_id)
        from DecodeLast_white3 [OF t w] c1 c2 True show ?thesis
          by (simp add: spec_space_width_end_def)
      next
        case c3: False
        have "\<not> IsSpace (fst (DecodeLastRuneInString t))"
        proof
          assume sp: "IsSpace (fst (DecodeLastRuneInString t))"
          from DecodeLast_unfold [OF ne False] obtain start where st: "start < ?n"
            and dl: "DecodeLastRuneInString t
               = (if start + snd (DecodeRuneInString (drop start t)) \<noteq> ?n
                  then (RuneError, 1) else DecodeRuneInString (drop start t))"
            by blast
          let ?u = "drop start t"
          from sp dl have full: "start + snd (DecodeRuneInString ?u) = ?n"
            and spu: "IsSpace (fst (DecodeRuneInString ?u))"
            by (auto simp: not_space_RuneError split: if_splits simp del: DecodeRuneInString.simps)
          from st have une: "?u \<noteq> []" by simp
          from spec_space_width_Decode [OF une] spu full
          have wu: "spec_space_width ?u = length ?u" by simp
          from spec_space_width_full [OF wu une] have white: "spec_is_white (map byte ?u)" .
          from wu spec_space_width_le [of ?u] have "length ?u \<le> 3" by simp
          moreover from st have "1 \<le> length ?u" by simp
          moreover have "start = ?n - length ?u" using st by simp
          ultimately have "start = ?n - 1 \<or> start = ?n - 2 \<or> start = ?n - 3"
            by auto
          with white c1 c2 c3 show False by auto
        qed
        with c1 c2 c3 show ?thesis
          by (simp add: spec_space_width_end_def)
      qed
    qed
  qed
qed

lemma Decode_width_pos:
  assumes "t \<noteq> []"
  shows "1 \<le> snd (DecodeRuneInString t)"
  using assms by (cases rule: Decode_cases) (simp_all del: DecodeRuneInString.simps)

lemma DecodeLast_width_pos:
  assumes "t \<noteq> []"
  shows "1 \<le> snd (DecodeLastRuneInString t)"
proof (cases "byte (last t) < 0x80")
  case True
  with assms show ?thesis by (simp add: DecodeLastRuneInString_def)
next
  case False
  from DecodeLast_unfold [OF assms False] obtain start where "start < length t"
    and "DecodeLastRuneInString t
               = (if start + snd (DecodeRuneInString (drop start t)) \<noteq> length t
                  then (RuneError, 1) else DecodeRuneInString (drop start t))"
    by blast
  then show ?thesis
    using Decode_width_pos [of "drop start t"]
    by (auto split: if_splits simp del: DecodeRuneInString.simps)
qed

lemma TrimLeftSpace_spec: "TrimLeftSpace t = spec_trim_left t"
proof (induction t rule: TrimLeftSpace.induct)
  case (1 s)
  show ?case
  proof (cases "s = []")
    case True
    then show ?thesis
      by (simp add: TrimLeftSpace.simps spec_trim_left.simps spec_space_width_def)
  next
    case False
    show ?thesis
    proof (cases "IsSpace (fst (DecodeRuneInString s))")
      case True
      with False spec_space_width_Decode [OF False] Decode_width_pos [OF False] 1 show ?thesis
        by (subst TrimLeftSpace.simps, subst spec_trim_left.simps)
           (simp del: DecodeRuneInString.simps)
    next
      case nsp: False
      with False spec_space_width_Decode [OF False] show ?thesis
        by (subst TrimLeftSpace.simps, subst spec_trim_left.simps)
           (simp del: DecodeRuneInString.simps)
    qed
  qed
qed

lemma TrimRightSpace_spec: "TrimRightSpace t = spec_trim_right t"
proof (induction t rule: TrimRightSpace.induct)
  case (1 s)
  show ?case
  proof (cases "s = []")
    case True
    then show ?thesis
      by (simp add: TrimRightSpace.simps spec_trim_right.simps spec_space_width_end_def)
  next
    case False
    show ?thesis
    proof (cases "IsSpace (fst (DecodeLastRuneInString s))")
      case True
      with False spec_space_width_end_DecodeLast [OF False] DecodeLast_width_pos [OF False] 1
      show ?thesis
        by (subst TrimRightSpace.simps, subst spec_trim_right.simps) simp
    next
      case nsp: False
      with False spec_space_width_end_DecodeLast [OF False] show ?thesis
        by (subst TrimRightSpace.simps, subst spec_trim_right.simps) simp
    qed
  qed
qed

lemma strings_TrimSpace_spec: "strings_TrimSpace t = spec_trim t"
  by (simp add: strings_TrimSpace_def spec_trim_def TrimLeftSpace_spec TrimRightSpace_spec)

lemma strings_Split_Cons:
  "strings_Split (c # cs) sep =
     (if c = sep then [] # strings_Split cs sep
      else (c # hd (strings_Split cs sep)) # tl (strings_Split cs sep))"
proof (cases "c = sep")
  case True
  then show ?thesis
    by (subst strings_Split.simps) simp
next
  case False
  then show ?thesis
    by (cases "dropWhile (\<lambda>c. c \<noteq> sep) cs")
       (simp_all add: strings_Split.simps [of "c # cs"] strings_Split.simps [of cs]
          del: dropWhile_eq_Nil_conv)
qed

lemma strings_Split_spec: "strings_Split v (CHR '','') = spec_pieces v"
proof (induction v)
  case Nil
  show ?case by (simp add: strings_Split.simps)
next
  case (Cons c cs)
  then show ?case by (simp add: strings_Split_Cons)
qed

lemma strings_EqualFold_spec:
  assumes "\<forall>c \<in> set v. byte c < 0x80"
  shows "strings_EqualFold v t = spec_ci_equal v t"
  using assms
proof (induction v arbitrary: t)
  case Nil
  show ?case by (simp add: strings_EqualFold.simps)
next
  case (Cons c cs)
  then have c: "byte c < 0x80" and d: "DecodeRuneInString (c # cs) = (byte c, 1)"
    by simp_all
  show ?case
  proof (cases "t = []")
    case True
    then show ?thesis
      by (subst strings_EqualFold.simps) (simp add: spec_letter_width_def)
  next
    case False
    from spec_letter_width_Decode [OF c False] Decode_width_pos [OF False] Cons.IH Cons.prems
    show ?thesis
      by (subst strings_EqualFold.simps) (simp add: d False del: DecodeRuneInString.simps)
  qed
qed

section \<open>The upgrade predicate: the program against the specification\<close>

text \<open>The equations that evaluate the predicate on a given header map.\<close>

lemmas upgrade_eval =
  isWebSocketHandshake_def headerContains_def index_Header_def strings_Split.simps
  strings_EqualFold.simps rune_EqualFold_def strings_TrimSpace_def TrimLeftSpace.simps
  TrimRightSpace.simps IsSpace_def DecodeLastRuneInString_def byte_def accepts_def is_cont_def
  RuneError_def RuneStart_def

lemma headerContains_pieces_iff:
  "headerContains_pieces value ss
     \<longleftrightarrow> (\<exists>s \<in> set ss. strings_EqualFold value (strings_TrimSpace s))"
  by (induction ss) auto

lemma headerContains_values_iff:
  "headerContains_values value vs
     \<longleftrightarrow> (\<exists>v \<in> set vs. \<exists>s \<in> set (strings_Split v (CHR '','')).
            strings_EqualFold value (strings_TrimSpace s))"
  by (induction vs) (auto simp: headerContains_pieces_iff)

lemma headerContains_spec:
  assumes "\<forall>c \<in> set token. byte c < 0x80"
  shows "headerContains header name token = spec_has_token header name token"
  by (auto simp: headerContains_def index_Header_def spec_has_token_def
        headerContains_values_iff strings_Split_spec strings_TrimSpace_spec
        strings_EqualFold_spec [OF assms] split: option.splits)

text \<open>
  C4: for every header map, the upgrade predicate is true exactly when the map has a
  \<open>Connection\<close> header one of whose values, split on commas and each piece trimmed of
  surrounding white space, holds a piece equal to \<open>Upgrade\<close> without regard to case, and
  an \<open>Upgrade\<close> header with a piece equal to \<open>websocket\<close> in the same sense. Every value
  of a repeated header is looked at, a missing header gives false, and the predicate is a
  total function of the header map alone. Case and white space are Unicode's, as the
  library functions of the program have them; the right-hand side spells both out on bytes.
\<close>

theorem isWebSocketHandshake_spec:
  "isWebSocketHandshake header = spec_isUpgrade header"
proof -
  have "\<forall>c \<in> set ''Upgrade''. byte c < 0x80" and "\<forall>c \<in> set ''websocket''. byte c < 0x80"
    by (simp_all add: byte_def)
  then show ?thesis
    by (simp add: isWebSocketHandshake_def spec_isUpgrade_def headerContains_spec)
qed

theorem isWebSocketHandshake_spec_witness:
  "isWebSocketHandshake
     [''Connection'' \<mapsto> [''keep-alive'', ''close , UPGRADE ''], ''Upgrade'' \<mapsto> [''h2c,WebSocket'']]
   \<and> spec_isUpgrade
     [''Connection'' \<mapsto> [''keep-alive'', ''close , UPGRADE ''], ''Upgrade'' \<mapsto> [''h2c,WebSocket'']]
   \<and> isWebSocketHandshake
     [''Connection'' \<mapsto> [[CHR 0xC2, CHR 0xA0] @ ''upgrade''],
      ''Upgrade'' \<mapsto> [''websoc'' @ [CHR 0xE2, CHR 0x84, CHR 0xAA] @ ''et'' @ [CHR 0xE3, CHR 0x80, CHR 0x80]]]
   \<and> spec_isUpgrade
     [''Connection'' \<mapsto> [[CHR 0xC2, CHR 0xA0] @ ''upgrade''],
      ''Upgrade'' \<mapsto> [''websoc'' @ [CHR 0xE2, CHR 0x84, CHR 0xAA] @ ''et'' @ [CHR 0xE3, CHR 0x80, CHR 0x80]]]
   \<and> \<not> isWebSocketHandshake
     [''Connection'' \<mapsto> [''Upgrade'']]
   \<and> \<not> spec_isUpgrade
     [''Connection'' \<mapsto> [''Upgrade'']]
   \<and> \<not> isWebSocketHandshake
     [''Connection'' \<mapsto> [''Upgrade''], ''Upgrade'' \<mapsto> [''h2c'']]
   \<and> \<not> spec_isUpgrade
     [''Connection'' \<mapsto> [''Upgrade''], ''Upgrade'' \<mapsto> [''h2c'']]
   \<and> \<not> isWebSocketHandshake
     [''Connection'' \<mapsto> [''close''], ''Upgrade'' \<mapsto> [''websocket'']]
   \<and> \<not> spec_isUpgrade
     [''Connection'' \<mapsto> [''close''], ''Upgrade'' \<mapsto> [''websocket'']]
   \<and> \<not> isWebSocketHandshake
     [''Connection'' \<mapsto> [''Upgrade''], ''Upgrade'' \<mapsto> [''web socket'']]
   \<and> \<not> spec_isUpgrade
     [''Connection'' \<mapsto> [''Upgrade''], ''Upgrade'' \<mapsto> [''web socket'']]
   \<and> \<not> isWebSocketHandshake
     [''Connection'' \<mapsto> [''Up,grade''], ''Upgrade'' \<mapsto> [''websocket'']]
   \<and> \<not> spec_isUpgrade
     [''Connection'' \<mapsto> [''Up,grade''], ''Upgrade'' \<mapsto> [''websocket'']]
   \<and> \<not> isWebSocketHandshake
     [''Connection'' \<mapsto> [''Upgrade''], ''Upgrade'' \<mapsto> [''websockets'']]
   \<and> \<not> spec_isUpgrade
     [''Connection'' \<mapsto> [''Upgrade''], ''Upgrade'' \<mapsto> [''websockets'']]"
proof -
  have c1: "isWebSocketHandshake
     [''Connection'' \<mapsto> [''keep-alive'', ''close , UPGRADE ''], ''Upgrade'' \<mapsto> [''h2c,WebSocket'']]"
    by (simp add: upgrade_eval)
  have s1: "spec_isUpgrade
     [''Connection'' \<mapsto> [''keep-alive'', ''close , UPGRADE ''], ''Upgrade'' \<mapsto> [''h2c,WebSocket'']]"
    using c1 unfolding isWebSocketHandshake_spec .
  have c2: "isWebSocketHandshake
     [''Connection'' \<mapsto> [[CHR 0xC2, CHR 0xA0] @ ''upgrade''],
      ''Upgrade'' \<mapsto> [''websoc'' @ [CHR 0xE2, CHR 0x84, CHR 0xAA] @ ''et'' @ [CHR 0xE3, CHR 0x80, CHR 0x80]]]"
    by (simp add: upgrade_eval)
  have s2: "spec_isUpgrade
     [''Connection'' \<mapsto> [[CHR 0xC2, CHR 0xA0] @ ''upgrade''],
      ''Upgrade'' \<mapsto> [''websoc'' @ [CHR 0xE2, CHR 0x84, CHR 0xAA] @ ''et'' @ [CHR 0xE3, CHR 0x80, CHR 0x80]]]"
    using c2 unfolding isWebSocketHandshake_spec .
  have c3: "\<not> isWebSocketHandshake
     [''Connection'' \<mapsto> [''Upgrade'']]"
    by (simp add: upgrade_eval)
  have s3: "\<not> spec_isUpgrade
     [''Connection'' \<mapsto> [''Upgrade'']]"
    using c3 unfolding isWebSocketHandshake_spec .
  have c4: "\<not> isWebSocketHandshake
     [''Connection'' \<mapsto> [''Upgrade''], ''Upgrade'' \<mapsto> [''h2c'']]"
    by (simp add: upgrade_eval)
  have s4: "\<not> spec_isUpgrade
     [''Connection'' \<mapsto> [''Upgrade''], ''Upgrade'' \<mapsto> [''h2c'']]"
    using c4 unfolding isWebSocketHandshake_spec .
  have c5: "\<not> isWebSocketHandshake
     [''Connection'' \<mapsto> [''close''], ''Upgrade'' \<mapsto> [''websocket'']]"
    by (simp add: upgrade_eval)
  have s5: "\<not> spec_isUpgrade
     [''Connection'' \<mapsto> [''close''], ''Upgrade'' \<mapsto> [''websocket'']]"
    using c5 unfolding isWebSocketHandshake_spec .
  have c6: "\<not> isWebSocketHandshake
     [''Connection'' \<mapsto> [''Upgrade''], ''Upgrade'' \<mapsto> [''web socket'']]"
    by (simp add: upgrade_eval)
  have s6: "\<not> spec_isUpgrade
     [''Connection'' \<mapsto> [''Upgrade''], ''Upgrade'' \<mapsto> [''web socket'']]"
    using c6 unfolding isWebSocketHandshake_spec .
  have c7: "\<not> isWebSocketHandshake
     [''Connection'' \<mapsto> [''Up,grade''], ''Upgrade'' \<mapsto> [''websocket'']]"
    by (simp add: upgrade_eval)
  have s7: "\<not> spec_isUpgrade
     [''Connection'' \<mapsto> [''Up,grade''], ''Upgrade'' \<mapsto> [''websocket'']]"
    using c7 unfolding isWebSocketHandshake_spec .
  have c8: "\<not> isWebSocketHandshake
     [''Connection'' \<mapsto> [''Upgrade''], ''Upgrade'' \<mapsto> [''websockets'']]"
    by (simp add: upgrade_eval)
  have s8: "\<not> spec_isUpgrade
     [''Connection'' \<mapsto> [''Upgrade''], ''Upgrade'' \<mapsto> [''websockets'']]"
    using c8 unfolding isWebSocketHandshake_spec .
  from c1 s1 c2 s2 c3 s3 c4 s4 c5 s5 c6 s6 c7 s7 c8 s8 show ?thesis
    by (intro conjI)
qed

text \<open>
  C10: the header name is looked up as the exact key of the map. A map without the key
  \<open>Connection\<close>, or without the key \<open>Upgrade\<close>, gives false whatever it holds under other
  keys (the lower-case \<open>connection\<close>, say), and what the map holds under any other key
  does not change the answer.
\<close>

theorem isWebSocketHandshake_exact_keys:
  "(header ''Connection'' = None \<or> header ''Upgrade'' = None \<longrightarrow> \<not> isWebSocketHandshake header)
   \<and> (k \<noteq> ''Connection'' \<and> k \<noteq> ''Upgrade'' \<longrightarrow>
        isWebSocketHandshake (header(k := x)) = isWebSocketHandshake header)"
  by (auto simp: isWebSocketHandshake_def headerContains_def index_Header_def)

theorem isWebSocketHandshake_exact_keys_witness:
  "[''connection'' \<mapsto> [''Upgrade''], ''upgrade'' \<mapsto> [''websocket'']] ''Connection'' = None
   \<and> \<not> isWebSocketHandshake [''connection'' \<mapsto> [''Upgrade''], ''upgrade'' \<mapsto> [''websocket'']]
   \<and> isWebSocketHandshake [''Connection'' \<mapsto> [''Upgrade''], ''Upgrade'' \<mapsto> [''websocket'']]
   \<and> ''connection'' \<noteq> ''Connection'' \<and> ''connection'' \<noteq> ''Upgrade''
   \<and> isWebSocketHandshake
        ([''Connection'' \<mapsto> [''Upgrade''], ''Upgrade'' \<mapsto> [''websocket'']]
           (''connection'' := Some [''close'']))"
proof -
  have k: "[''connection'' \<mapsto> [''Upgrade''], ''upgrade'' \<mapsto> [''websocket'']] ''Connection'' = None"
    by simp
  have t: "isWebSocketHandshake [''Connection'' \<mapsto> [''Upgrade''], ''Upgrade'' \<mapsto> [''websocket'']]"
    by (simp add: upgrade_eval)
  have n: "''connection'' \<noteq> ''Connection'' \<and> ''connection'' \<noteq> ''Upgrade''"
    by simp
  show ?thesis
    using k t n
      isWebSocketHandshake_exact_keys
        [of "[''connection'' \<mapsto> [''Upgrade''], ''upgrade'' \<mapsto> [''websocket'']]"
            "''connection''" "Some [''close'']"]
      isWebSocketHandshake_exact_keys
        [of "[''Connection'' \<mapsto> [''Upgrade''], ''Upgrade'' \<mapsto> [''websocket'']]"
            "''connection''" "Some [''close'']"]
    by blast
qed

section \<open>The raw-connection acquirer\<close>

text \<open>
  C8: \<open>hijackConnection\<close> panics when the writer is no hijacker. When the writer is one
  and \<open>Hijack\<close> fails, it logs the error to the session's warning sink and returns the
  error with no connection; when \<open>Hijack\<close> succeeds, it returns the connection with a nil
  error and logs nothing. In both cases \<open>Hijack\<close> was called once.
\<close>

theorem hijackConnection_cases:
  "(w = NotHijacker \<longrightarrow>
      hijackConnection cx w sink = Panic ''httpserver does not support hijacking'')
   \<and> (w = Hijacker hj calls \<and> hj calls = (conn, Some err) \<longrightarrow>
        hijackConnection cx w sink
          = Returns ((None, Some err), Hijacker hj (Suc calls),
                     sink @ [(Session cx, ''Hijack error: %v'', err)]))
   \<and> (w = Hijacker hj calls \<and> hj calls = (conn, None) \<longrightarrow>
        hijackConnection cx w sink = Returns ((conn, None), Hijacker hj (Suc calls), sink))"
  by (simp add: hijackConnection_def Warnf_def)

theorem hijackConnection_cases_witness:
  "hijackConnection \<lparr>Session = 42, WebSocketHandler = None, WebSocketCopyHandler = None,
                      WebSocketCloseHandler = None\<rparr> NotHijacker []
     = Panic ''httpserver does not support hijacking''
   \<and> (\<lambda>n. (Some 5, if n = 0 then Some (Error ''closed'') else None)) (0::nat) = (Some (5::nat), Some (Error ''closed''))
   \<and> hijackConnection \<lparr>Session = 42, WebSocketHandler = None, WebSocketCopyHandler = None,
                        WebSocketCloseHandler = None\<rparr>
        (Hijacker (\<lambda>n. (Some 5, if n = 0 then Some (Error ''closed'') else None)) 0) []
     = Returns ((None, Some (Error ''closed'')),
                Hijacker (\<lambda>n. (Some 5, if n = 0 then Some (Error ''closed'') else None)) (Suc 0),
                [(42, ''Hijack error: %v'', Error ''closed'')])
   \<and> (\<lambda>n. (Some 5, if n = 0 then Some (Error ''closed'') else None)) (Suc 0) = (Some (5::nat), None)
   \<and> hijackConnection \<lparr>Session = 42, WebSocketHandler = None, WebSocketCopyHandler = None,
                        WebSocketCloseHandler = None\<rparr>
        (Hijacker (\<lambda>n. (Some 5, if n = 0 then Some (Error ''closed'') else None)) (Suc 0)) []
     = Returns ((Some 5, None),
                Hijacker (\<lambda>n. (Some 5, if n = 0 then Some (Error ''closed'') else None)) (Suc (Suc 0)),
                [])"
  using
    hijackConnection_cases
      [where w = NotHijacker and sink = "[]"
         and cx = "\<lparr>Session = 42, WebSocketHandler = None, WebSocketCopyHandler = None,
                     WebSocketCloseHandler = None\<rparr>"]
    hijackConnection_cases
      [where w = "Hijacker (\<lambda>n. (Some 5, if n = 0 then Some (Error ''closed'') else None)) 0"
         and hj = "\<lambda>n. (Some 5, if n = 0 then Some (Error ''closed'') else None)"
         and calls = 0 and conn = "Some 5" and err = "Error ''closed''" and sink = "[]"
         and cx = "\<lparr>Session = 42, WebSocketHandler = None, WebSocketCopyHandler = None,
                     WebSocketCloseHandler = None\<rparr>"]
    hijackConnection_cases
      [where w = "Hijacker (\<lambda>n. (Some 5, if n = 0 then Some (Error ''closed'') else None)) (Suc 0)"
         and hj = "\<lambda>n. (Some 5, if n = 0 then Some (Error ''closed'') else None)"
         and calls = "Suc 0" and conn = "Some 5" and sink = "[]"
         and cx = "\<lparr>Session = 42, WebSocketHandler = None, WebSocketCopyHandler = None,
                     WebSocketCloseHandler = None\<rparr>"]
  by simp

end
